theory Spec2Isabelle
  imports Main "HOL-Library.AList" "HOL-Library.Char_ord" "HOL-Library.List_Lexorder"
begin

section \<open>The addressable object model: \<open>pants.engine.exp.targets\<close>\<close>

text \<open>
  An optional sequence (\<open>None\<close>, or a list or a string) is read through \<open>elems\<close>,
  which is empty for \<open>None\<close>: Python's truth test \<open>if x\<close> on such a value holds exactly
  when \<open>elems x \<noteq> []\<close>.
\<close>

fun elems :: "'a list option \<Rightarrow> 'a list" where
  "elems None = []"
| "elems (Some xs) = xs"

subsection \<open>\<open>Variants.merge\<close>\<close>

text \<open>
  An argument of \<open>merge\<close> is \<open>None\<close> or an iterable of key/value pairs. Python's truth test,
  which \<open>merge\<close> applies to both arguments, tells two kinds of iterable apart: a list or
  a tuple is false exactly when it is empty, while an iterator (a generator, say) has no
  length and is always true, even when it yields nothing. \<open>pairs\<close> is what iterating over
  the argument yields; every path of \<open>merge\<close> iterates over an argument at most once, so
  an iterator is never read after it is used up.
\<close>

datatype ('k, 'v) variants_arg =
    Py_None
  | Py_sequence "('k \<times> 'v) list"
  | Py_iterator "('k \<times> 'v) list"

fun truthy :: "('k, 'v) variants_arg \<Rightarrow> bool" where
  "truthy Py_None = False"
| "truthy (Py_sequence xs) = (xs \<noteq> [])"
| "truthy (Py_iterator xs) = True"

fun pairs :: "('k, 'v) variants_arg \<Rightarrow> ('k \<times> 'v) list" where
  "pairs Py_None = []"
| "pairs (Py_sequence xs) = xs"
| "pairs (Py_iterator xs) = xs"

text \<open>
  \<open>dict(left)\<close> and \<open>merged[key] = value\<close>: a dictionary is an association list in
  insertion order; storing under a key that is present replaces its value in place.
  \<open>tuple(left)\<close> is only reached for an argument that is not \<open>None\<close>.
\<close>

definition dict :: "('k \<times> 'v) list \<Rightarrow> ('k \<times> 'v) list" where
  "dict xs = fold (\<lambda>(key, value) merged. AList.update key value merged) xs []"

definition merge ::
  "('k::linorder, 'v) variants_arg \<Rightarrow> ('k, 'v) variants_arg \<Rightarrow> ('k \<times> 'v) list option" where
  "merge left right =
     (if \<not> truthy left then
        (if truthy right then Some (pairs right) else None)
      else if \<not> truthy right then Some (pairs left)
      else
        let merged = dict (pairs left);
            merged = fold (\<lambda>(key, value) merged. AList.update key value merged)
                       (pairs right) merged
        in Some (sort_key fst merged))"

subsection \<open>\<open>Sources\<close>\<close>

datatype address = Address (spec_path: string) (target_name: string)

datatype sources =
  Sources (sources_name: "string option")
          (address: "address option")
          (files: "string list option")
          (globs: "string option")
          (rglobs: "string option")
          (zglobs: "string option")
          (excludes: "sources option")
          (extensions: "string list")

datatype fileset_wrapper_type = Globs | RGlobs | ZGlobs

text \<open>
  The wrappers of \<open>pants.source.wrapped_globs\<close> read the file system: a wrapper type,
  rooted at a base path and applied to a pattern, gives the relative paths that match.
  The file system is a parameter of the model.
\<close>

type_synonym filesets = "fileset_wrapper_type \<Rightarrow> string \<Rightarrow> string \<Rightarrow> string list"

text \<open>
  \<open>os.path.splitext\<close> and \<open>os.path.join\<close> in the POSIX flavour of the standard library.
  \<open>rfind\<close> is \<open>str.rfind\<close> for a single character: the last index, or \<open>-1\<close>.
  The extension starts at the last dot of the last path component, unless that
  component has nothing but dots before it.
\<close>

definition rfind :: "string \<Rightarrow> char \<Rightarrow> int" where
  "rfind p c =
     (case filter (\<lambda>i. p ! i = c) (rev [0..<length p]) of
        [] \<Rightarrow> - 1
      | i # _ \<Rightarrow> int i)"

definition splitext :: "string \<Rightarrow> string \<times> string" where
  "splitext p =
     (let sepIndex = rfind p CHR ''/'';
          dotIndex = rfind p CHR ''.''
      in if dotIndex > sepIndex
            \<and> filter (\<lambda>filenameIndex. p ! filenameIndex \<noteq> CHR ''.'')
                 [nat (sepIndex + 1)..<nat dotIndex] \<noteq> []
         then (take (nat dotIndex) p, drop (nat dotIndex) p)
         else (p, []))"

definition startswith :: "string \<Rightarrow> string \<Rightarrow> bool" where
  "startswith s prefix = (take (length prefix) s = prefix)"

definition endswith :: "string \<Rightarrow> string \<Rightarrow> bool" where
  "endswith s suffix =
     (length suffix \<le> length s \<and> drop (length s - length suffix) s = suffix)"

definition os_path_join :: "string \<Rightarrow> string \<Rightarrow> string" where
  "os_path_join a b =
     (if startswith b ''/'' then b
      else if a = [] \<or> endswith a ''/'' then a @ b
      else a @ ''/'' @ b)"

text \<open>Targets are objects with an identity: a reference into the store of targets.\<close>

type_synonym ref = nat

datatype dep = Target_dep ref | Other_dep string

record configuration =
  name :: "string option"
  dependencies :: "dep list"

record target =
  target_name :: "string option"
  configurations :: "configuration list"

type_synonym store = "ref \<Rightarrow> target"

datatype error =
    ValueError_not_a_file string "string list"
  | ValueError_base_path
  | ConfigurationNotFound "string option" "configuration list"

definition accept_file :: "string list \<Rightarrow> string \<Rightarrow> bool" where
  "accept_file exts f = (case splitext f of (_, ext) \<Rightarrow> ext \<in> set exts)"

text \<open>
  \<open>Sources.__init__\<close> for a concrete subclass whose \<open>extensions\<close> property is \<open>exts\<close>.
  The loop over \<open>files\<close> raises at the first file that is not accepted. A new value has
  no address: the address is bound later, by whoever names the value.
\<close>

definition Sources_init ::
  "string list \<Rightarrow> string option \<Rightarrow> string list option \<Rightarrow> string option \<Rightarrow> string option
     \<Rightarrow> string option \<Rightarrow> sources option \<Rightarrow> error + sources" where
  "Sources_init exts nm fls gl rgl zgl excl =
     (let self = Sources nm None fls gl rgl zgl excl exts in
      if elems fls \<noteq> [] \<and> exts \<noteq> [] then
        (case find (\<lambda>f. \<not> accept_file exts f) (elems fls) of
           Some f \<Rightarrow> Inl (ValueError_not_a_file f exts)
         | None \<Rightarrow> Inr self)
      else Inr self)"

text \<open>
  \<open>file_sources\<close>, the inner generator of \<open>iter_paths\<close>: the explicit files, then the
  three kinds of globs, each only if given.
\<close>

definition file_sources :: "filesets \<Rightarrow> sources \<Rightarrow> string \<Rightarrow> string list list" where
  "file_sources fs self base_path =
     (if elems (files self) \<noteq> [] then [elems (files self)] else []) @
     concat (map (\<lambda>(spec, fileset_wrapper_type).
                    if elems spec \<noteq> [] then [fs fileset_wrapper_type base_path (elems spec)]
                    else [])
               [(globs self, Globs), (rglobs self, RGlobs), (zglobs self, ZGlobs)])"

text \<open>
  \<open>iter_paths\<close> returns the paths it yields, or the error it raises. The excluded paths
  come from a recursive call on \<open>excludes\<close>, a strictly smaller value.
\<close>

function iter_paths :: "filesets \<Rightarrow> sources \<Rightarrow> string option \<Rightarrow> error + string list" where
  "iter_paths fs self base_path =
     (let base_path = (case address self of
                         Some a \<Rightarrow> Some (spec_path a)
                       | None \<Rightarrow> base_path)
      in if elems base_path = [] then Inl ValueError_base_path
         else
           case (case excludes self of
                   Some e \<Rightarrow> iter_paths fs e base_path
                 | None \<Rightarrow> Inr [])
           of
             Inl err \<Rightarrow> Inl err
           | Inr excluded_files \<Rightarrow>
               Inr (map (os_path_join (elems base_path))
                      (filter (\<lambda>rel_path.
                                 accept_file (extensions self) rel_path
                                 \<and> os_path_join (elems base_path) rel_path
                                     \<notin> set excluded_files)
                         (concat (file_sources fs self (elems base_path))))))"
  by pat_completeness auto

lemma size_excludes: "excludes self = Some e \<Longrightarrow> size e < size self"
  by (cases self) simp

termination iter_paths
  by (relation "measure (\<lambda>(fs, self, base_path). size self)") (auto simp: size_excludes)

declare iter_paths.simps [simp del]

subsection \<open>\<open>Target\<close>\<close>

definition select_configuration :: "target \<Rightarrow> string option \<Rightarrow> error + configuration" where
  "select_configuration self nm =
     (let configs = filter (\<lambda>config. name config = nm) (configurations self) in
      if length configs \<noteq> 1 then Inl (ConfigurationNotFound nm configs)
      else Inr (configs ! 0))"

text \<open>
  \<open>walk_targets\<close>: the inner generator \<open>walk\<close> with its two nested loops, threading the
  \<open>visited\<close> set and returning it with the targets yielded, in order. \<open>self\<close> is the root
  the method was called on and \<open>t\<close> the argument \<open>target\<close> of \<open>walk\<close>; membership in
  \<open>visited\<close> is by the identity of the target. A dependency is a target or some other
  addressable value (\<open>isinstance(dep, Target)\<close> tells them apart).
\<close>

function walk :: "store \<Rightarrow> ref \<Rightarrow> bool \<Rightarrow> ref \<Rightarrow> ref set \<Rightarrow> ref set \<times> ref list"
  and walk_configurations ::
    "store \<Rightarrow> ref \<Rightarrow> bool \<Rightarrow> configuration list \<Rightarrow> ref set \<Rightarrow> ref set \<times> ref list"
  and walk_dependencies ::
    "store \<Rightarrow> ref \<Rightarrow> bool \<Rightarrow> dep list \<Rightarrow> ref set \<Rightarrow> ref set \<times> ref list"
where
  "walk h self postorder t visited =
     (if t \<notin> visited then
        (case walk_configurations h self postorder (configurations (h self)) (insert t visited) of
           (visited', ys) \<Rightarrow>
             (visited', (if \<not> postorder then [t] else []) @ ys @ (if postorder then [t] else [])))
      else (visited, []))"
| "walk_configurations h self postorder [] visited = (visited, [])"
| "walk_configurations h self postorder (c # cs) visited =
     (case walk_dependencies h self postorder (dependencies c) visited of
        (visited1, ys1) \<Rightarrow>
          (case walk_configurations h self postorder cs visited1 of
             (visited2, ys2) \<Rightarrow> (visited2, ys1 @ ys2)))"
| "walk_dependencies h self postorder [] visited = (visited, [])"
| "walk_dependencies h self postorder (d # ds) visited =
     (case (case d of Target_dep u \<Rightarrow> walk h self postorder u visited
                    | Other_dep x \<Rightarrow> (visited, [])) of
        (visited1, ys1) \<Rightarrow>
          (case walk_dependencies h self postorder ds visited1 of
             (visited2, ys2) \<Rightarrow> (visited2, ys1 @ ys2)))"
  by pat_completeness auto

text \<open>The targets among some dependencies, and the measure of the recursion.\<close>

fun target_deps :: "dep list \<Rightarrow> ref list" where
  "target_deps [] = []"
| "target_deps (Target_dep u # ds) = u # target_deps ds"
| "target_deps (Other_dep x # ds) = target_deps ds"

definition configuration_targets :: "configuration list \<Rightarrow> ref list" where
  "configuration_targets cs = concat (map (\<lambda>c. target_deps (dependencies c)) cs)"

type_synonym walk_call =
  "(store \<times> ref \<times> bool \<times> ref \<times> ref set) +
   (store \<times> ref \<times> bool \<times> configuration list \<times> ref set) +
   (store \<times> ref \<times> bool \<times> dep list \<times> ref set)"

fun unvisited :: "walk_call \<Rightarrow> nat" where
  "unvisited (Inl (h, self, postorder, t, visited)) =
     card ((set (configuration_targets (configurations (h self))) \<union> {t}) - visited)"
| "unvisited (Inr (Inl (h, self, postorder, cs, visited))) =
     card ((set (configuration_targets (configurations (h self)))
              \<union> set (configuration_targets cs)) - visited)"
| "unvisited (Inr (Inr (h, self, postorder, ds, visited))) =
     card ((set (configuration_targets (configurations (h self)))
              \<union> set (target_deps ds)) - visited)"

fun loop_rank :: "walk_call \<Rightarrow> nat" where
  "loop_rank (Inl _) = 0"
| "loop_rank (Inr (Inl _)) = 2"
| "loop_rank (Inr (Inr _)) = 1"

fun loop_rest :: "walk_call \<Rightarrow> nat" where
  "loop_rest (Inl _) = 0"
| "loop_rest (Inr (Inl (h, self, postorder, cs, visited))) = length cs"
| "loop_rest (Inr (Inr (h, self, postorder, ds, visited))) = length ds"

lemma walk_visited_grows:
  "walk_walk_configurations_walk_dependencies_dom (Inl (h, self, postorder, t, visited))
     \<Longrightarrow> visited \<subseteq> fst (walk h self postorder t visited)"
  "walk_walk_configurations_walk_dependencies_dom (Inr (Inl (h, self, postorder, cs, visited)))
     \<Longrightarrow> visited \<subseteq> fst (walk_configurations h self postorder cs visited)"
  "walk_walk_configurations_walk_dependencies_dom (Inr (Inr (h, self, postorder, ds, visited)))
     \<Longrightarrow> visited \<subseteq> fst (walk_dependencies h self postorder ds visited)"
proof (induct rule: walk_walk_configurations_walk_dependencies.pinduct)
  case (1 h self postorder t visited)
  then show ?case
    by (auto simp: walk.psimps split: prod.splits)
next
  case (2 h self postorder visited)
  then show ?case by (simp add: walk_configurations.psimps)
next
  case (3 h self postorder c cs visited)
  then show ?case
    by (fastforce simp: walk_configurations.psimps split: prod.splits)
next
  case (4 h self postorder visited)
  then show ?case by (simp add: walk_dependencies.psimps)
next
  case (5 h self postorder d ds visited)
  then show ?case
    by (cases d) (fastforce simp: walk_dependencies.psimps split: prod.splits)+
qed

lemma measures_leI:
  "f x \<le> f y \<Longrightarrow> (x, y) \<in> measures fs \<Longrightarrow> (x, y) \<in> measures (f # fs)"
  by (auto simp: le_less)

lemma card_diff_mono:
  "finite B \<Longrightarrow> A \<subseteq> B \<Longrightarrow> V \<subseteq> V' \<Longrightarrow> card (A - V') \<le> card (B - V)"
  by (rule card_mono) auto

termination walk
proof (relation "measures [unvisited, loop_rank, loop_rest]", goal_cases)
  case 1
  show ?case by simp
next
  case (2 h self postorder t visited)
  let ?U = "set (configuration_targets (configurations (h self)))"
  have "(?U \<union> ?U) - insert t visited \<subset> (?U \<union> {t}) - visited"
    using 2 by auto
  then have "card ((?U \<union> ?U) - insert t visited) < card ((?U \<union> {t}) - visited)"
    by (intro psubset_card_mono) auto
  then show ?case by simp
next
  case (3 h self postorder c cs visited)
  show ?case
    by (rule measures_leI) (auto simp: configuration_targets_def intro!: card_diff_mono)
next
  case (4 h self postorder c cs visited x y)
  then have grows: "visited \<subseteq> x"
    using walk_visited_grows(3) [of h self postorder "dependencies c" visited]
    by (metis fst_conv)
  show ?case
    by (rule measures_leI)
       (use grows in \<open>auto simp: configuration_targets_def intro!: card_diff_mono\<close>)
next
  case (5 h self postorder d ds visited x1)
  show ?case
    by (rule measures_leI) (use 5 in \<open>auto intro!: card_diff_mono\<close>)
next
  case (6 h self postorder d ds visited x y)
  have grows: "visited \<subseteq> x"
  proof (cases d)
    case (Target_dep u)
    then show ?thesis
      using 6 walk_visited_grows(1) [of h self postorder u visited]
      by (metis dep.simps(5) fst_conv)
  next
    case (Other_dep z)
    then show ?thesis using 6 by simp
  qed
  show ?case
    apply (rule measures_leI)
    subgoal using grows by (cases d) (auto intro!: card_diff_mono)
    subgoal by simp
    done
qed

declare walk.simps [simp del]

definition walk_targets :: "store \<Rightarrow> ref \<Rightarrow> bool \<Rightarrow> ref list" where
  "walk_targets h self postorder = snd (walk h self postorder self {})"

text \<open>
  The dependency graph that the claims speak of: an edge leads from a target to every
  target among the dependencies of its own configurations.
\<close>

definition dependency_edges :: "store \<Rightarrow> (ref \<times> ref) set" where
  "dependency_edges h = {(t, u). u \<in> set (configuration_targets (configurations (h t)))}"

definition direct_targets :: "store \<Rightarrow> ref \<Rightarrow> ref set" where
  "direct_targets h self = set (configuration_targets (configurations (h self)))"

text \<open>What one call of the walk has done to the visited set, given what it yields.\<close>

definition walk_ok :: "ref set \<Rightarrow> ref set \<Rightarrow> ref set \<Rightarrow> ref set \<times> ref list \<Rightarrow> bool" where
  "walk_ok visited must may r =
     (fst r = visited \<union> set (snd r) \<and> distinct (snd r) \<and> set (snd r) \<inter> visited = {}
      \<and> set (snd r) \<subseteq> may \<and> must \<subseteq> fst r)"

section \<open>Run orchestration: \<open>pants.bin.goal_runner.GoalRunner\<close>\<close>

text \<open>
  The orchestrator talks to four collaborators: the logger of the context, the task
  engine, the invalidation report and the run tracker, plus the nailgun process group.
  Every call to one of them is recorded as an event, in the order in which the calls
  happen, so that "never invoked" and "after" are statements about the event list.
\<close>

datatype exn =
    KeyboardInterrupt
  | Exception string
  | BaseException string

datatype event =
    Log_error_workdir string
  | Log_error_unknown_goals string
  | Engine_execute
  | Invalidation_report_report
  | Set_root_outcome_FAILURE
  | Nailgun_killall

record goal =
  goal_name :: string
  ordered_task_names :: "string list"

record pants_context =
  pants_workdir :: string

record goal_runner =
  runner_context :: pants_context
  goals :: "goal list"
  invalidation_report :: bool
  kill_nailguns :: bool

text \<open>The task engine is external: its \<open>execute\<close> either returns a result code or raises.\<close>

type_synonym engine = "pants_context \<Rightarrow> goal list \<Rightarrow> exn + int"

text \<open>Python's \<open>str.join\<close>.\<close>

fun join :: "string \<Rightarrow> string list \<Rightarrow> string" where
  "join sep [] = []"
| "join sep [x] = x"
| "join sep (x # y # ys) = x @ sep @ join sep (y # ys)"

definition execute_engine :: "engine \<Rightarrow> goal_runner \<Rightarrow> event list \<times> (exn + int)" where
  "execute_engine engine self =
     (let workdir = pants_workdir (runner_context self) in
      if \<not> endswith workdir ''.pants.d'' then
        ([Log_error_workdir workdir], Inr 1)
      else
        let unknown_goals =
              map goal_name (filter (\<lambda>goal. ordered_task_names goal = []) (goals self)) in
        if unknown_goals \<noteq> [] then
          ([Log_error_unknown_goals (join '' '' unknown_goals)], Inr 1)
        else
          case engine (runner_context self) (goals self) of
            Inl e \<Rightarrow> ([Engine_execute], Inl e)
          | Inr result \<Rightarrow>
              ([Engine_execute] @
               (if invalidation_report self then [Invalidation_report_report] else []),
               Inr result))"

text \<open>
  \<open>run\<close>: the \<open>try\<close> block, its three handlers and the \<open>finally\<close> block. An exception
  that is neither a \<open>KeyboardInterrupt\<close> nor an \<open>Exception\<close> passes through the
  \<open>finally\<close> block only.
\<close>

definition run :: "engine \<Rightarrow> goal_runner \<Rightarrow> event list \<times> (exn + int)" where
  "run engine self =
     (let should_kill_nailguns = kill_nailguns self in
      case execute_engine engine self of
        (tr, Inr result) \<Rightarrow>
          (tr @ (if result \<noteq> 0 then [Set_root_outcome_FAILURE] else [])
              @ (if should_kill_nailguns then [Nailgun_killall] else []),
           Inr result)
      | (tr, Inl KeyboardInterrupt) \<Rightarrow>
          (let should_kill_nailguns = True in
           (tr @ [Set_root_outcome_FAILURE]
               @ (if should_kill_nailguns then [Nailgun_killall] else []),
            Inl KeyboardInterrupt))
      | (tr, Inl (Exception m)) \<Rightarrow>
          (tr @ [Set_root_outcome_FAILURE]
              @ (if should_kill_nailguns then [Nailgun_killall] else []),
           Inl (Exception m))
      | (tr, Inl (BaseException m)) \<Rightarrow>
          (tr @ (if should_kill_nailguns then [Nailgun_killall] else []),
           Inl (BaseException m)))"

definition unknown_goal_names :: "goal_runner \<Rightarrow> string list" where
  "unknown_goal_names self =
     map goal_name (filter (\<lambda>goal. ordered_task_names goal = []) (goals self))"

section \<open>Concrete values\<close>

text \<open>Targets, sources and runs used as examples below.\<close>

definition depends_on :: "string \<Rightarrow> ref list \<Rightarrow> target" where
  "depends_on nm ds =
     \<lparr>target_name = Some nm,
      configurations = [\<lparr>name = Some ''default'', dependencies = map Target_dep ds\<rparr>]\<rparr>"

definition cycle :: store where
  "cycle r = (if r = 0 then depends_on ''A'' [1]
              else if r = 1 then depends_on ''B'' [2]
              else depends_on ''C'' [0])"

definition jvm_config :: configuration where
  "jvm_config = \<lparr>name = Some ''default'', dependencies = []\<rparr>"

definition py_config :: configuration where
  "py_config = \<lparr>name = Some ''default'', dependencies = [Other_dep ''3rdparty:six'']\<rparr>"

definition doc_config :: configuration where
  "doc_config = \<lparr>name = Some ''docs'', dependencies = []\<rparr>"

definition no_files :: filesets where
  "no_files = (\<lambda>fileset_wrapper_type base_path spec. [])"

definition any_sources :: sources where
  "any_sources = Sources None None (Some [''a.py'']) None None None None []"

definition py_sources :: sources where
  "py_sources =
     Sources (Some ''lib'') (Some (Address ''src/python'' ''lib'')) (Some [''x.py'', ''y.py''])
       None None None
       (Some (Sources None None (Some [''x.py'']) None None None None [''.py'']))
       [''.py'']"

definition compile_goal :: goal where
  "compile_goal = \<lparr>goal_name = ''compile'', ordered_task_names = [''jvm'', ''zinc'']\<rparr>"

definition typo_goal :: goal where
  "typo_goal = \<lparr>goal_name = ''complie'', ordered_task_names = []\<rparr>"

definition bogus_goal :: goal where
  "bogus_goal = \<lparr>goal_name = ''bogus'', ordered_task_names = []\<rparr>"

definition mk_runner :: "string \<Rightarrow> goal list \<Rightarrow> bool \<Rightarrow> bool \<Rightarrow> goal_runner" where
  "mk_runner workdir gs report kill =
     \<lparr>runner_context = \<lparr>pants_workdir = workdir\<rparr>, goals = gs,
      invalidation_report = report, kill_nailguns = kill\<rparr>"

definition engine_returning :: "int \<Rightarrow> engine" where
  "engine_returning r = (\<lambda>ctx gs. Inr r)"

definition engine_raising :: "exn \<Rightarrow> engine" where
  "engine_raising e = (\<lambda>ctx gs. Inl e)"

section \<open>Properties\<close>

subsection \<open>Variants\<close>

lemma distinct_map_insort_key:
  "distinct (map f (insort_key f x xs)) \<longleftrightarrow> f x \<notin> f ` set xs \<and> distinct (map f xs)"
  by (induction xs) (auto simp: set_insort_key)

lemma distinct_map_sort_key: "distinct (map f (sort_key f xs)) \<longleftrightarrow> distinct (map f xs)"
  by (induction xs) (auto simp: distinct_map_insort_key)

lemma map_of_sort_key:
  "distinct (map fst xs) \<Longrightarrow> map_of (sort_key fst xs) = map_of xs"
  by (simp add: map_of_inject_set distinct_map_sort_key)

lemma map_of_rev_distinct:
  "distinct (map fst xs) \<Longrightarrow> map_of (rev xs) = map_of xs"
  by (simp add: map_of_inject_set rev_map [symmetric])

lemma map_of_fold_update:
  "map_of (fold (\<lambda>(key, value) merged. AList.update key value merged) xs m)
     = map_of m ++ map_of (rev xs)"
proof (induction xs arbitrary: m)
  case Nil
  show ?case by simp
next
  case (Cons x xs)
  obtain k v where x: "x = (k, v)" by (cases x)
  show ?case
    by (simp add: x Cons.IH update_conv' fun_eq_iff map_add_def
          split: option.splits)
qed

lemma distinct_fold_update:
  "distinct (map fst m)
     \<Longrightarrow> distinct (map fst (fold (\<lambda>(key, value) merged. AList.update key value merged) xs m))"
  by (induction xs arbitrary: m) (auto simp: distinct_update)

lemma not_truthy_iff: "\<not> truthy x \<longleftrightarrow> x = Py_None \<or> x = Py_sequence []"
  by (cases x) auto

lemma not_truthy_pairs: "\<not> truthy x \<Longrightarrow> pairs x = []"
  by (cases x) auto

text \<open>
  C3 as stated fails in two ways. When only one side passes the truth test, that side is
  returned as it came, so a side that is not sorted by key gives a result that is not.
  And an iterator that yields nothing passes the truth test: the result is then the
  empty tuple and not \<open>None\<close>, although both sides are empty or absent.
\<close>

theorem merge_unsorted_counterexample:
  "distinct (map fst (pairs (Py_sequence [(''b'', 2::int), (''a'', 1)])))
   \<and> merge Py_None (Py_sequence [(''b'', 2::int), (''a'', 1)]) = Some [(''b'', 2), (''a'', 1)]
   \<and> \<not> sorted (map fst [(''b'', 2::int), (''a'', 1)])
   \<and> pairs (Py_iterator ([] :: (string \<times> int) list)) = []
   \<and> merge Py_None (Py_iterator ([] :: (string \<times> int) list)) = Some []
   \<and> merge (Py_iterator ([] :: (string \<times> int) list)) (Py_iterator []) = Some []"
  by (simp add: merge_def dict_def)

text \<open>
  C3, amended. For arguments (each \<open>None\<close> or an iterable of pairs) with keys unique within
  each side, \<open>merge\<close> returns \<open>None\<close> exactly when both fail Python's truth test, that is
  when each is \<open>None\<close> or an empty list or tuple; both sides are then empty or absent.
  Otherwise it returns pairs with one pair per key, whose value for a key is the one from
  \<open>right\<close> if \<open>right\<close> has the key and the one from \<open>left\<close> if not. The result is sorted by
  key when both sides pass the truth test, and also when both sides came sorted by key.
\<close>

theorem merge_right_biased:
  assumes "distinct (map fst (pairs left))" and "distinct (map fst (pairs right))"
  shows "(merge left right = None
            \<longleftrightarrow> (left = Py_None \<or> left = Py_sequence [])
                \<and> (right = Py_None \<or> right = Py_sequence []))
         \<and> (merge left right = None \<longrightarrow> pairs left = [] \<and> pairs right = [])
         \<and> (\<forall>t. merge left right = Some t \<longrightarrow>
               distinct (map fst t)
               \<and> map_of t = map_of (pairs left) ++ map_of (pairs right)
               \<and> ((truthy left \<and> truthy right)
                    \<or> (sorted (map fst (pairs left)) \<and> sorted (map fst (pairs right)))
                   \<longrightarrow> sorted (map fst t)))"
proof -
  let ?upd = "\<lambda>(key, value) merged. AList.update key value merged"
  let ?merged = "fold ?upd (pairs right) (dict (pairs left))"
  have d: "distinct (map fst ?merged)"
    by (simp add: dict_def distinct_fold_update)
  have "map_of ?merged = map_of (rev (pairs left)) ++ map_of (rev (pairs right))"
    by (simp add: dict_def map_of_fold_update)
  then have m: "map_of ?merged = map_of (pairs left) ++ map_of (pairs right)"
    using assms by (simp add: map_of_rev_distinct)
  show ?thesis
  proof (cases "truthy left")
    case False
    then have "pairs left = []" by (rule not_truthy_pairs)
    with False assms show ?thesis
      by (auto simp: merge_def not_truthy_iff)
  next
    case left: True
    show ?thesis
    proof (cases "truthy right")
      case False
      then have "pairs right = []" by (rule not_truthy_pairs)
      with False left assms show ?thesis
        by (auto simp: merge_def not_truthy_iff [symmetric])
    next
      case True
      with left d m show ?thesis
        by (auto simp: merge_def Let_def distinct_map_sort_key map_of_sort_key
              sorted_sort_key not_truthy_iff [symmetric])
    qed
  qed
qed

theorem merge_right_biased_witness:
  "distinct (map fst (pairs (Py_sequence [(''a'', 1::int), (''b'', 2)])))
   \<and> distinct (map fst (pairs (Py_iterator [(''c'', 4::int), (''b'', 3)])))
   \<and> merge (Py_sequence [(''a'', 1::int), (''b'', 2)]) (Py_iterator [(''c'', 4), (''b'', 3)])
       = Some [(''a'', 1), (''b'', 3), (''c'', 4)]
   \<and> sorted (map fst [(''a'', 1::int), (''b'', 3), (''c'', 4)])
   \<and> map_of [(''a'', 1::int), (''b'', 3), (''c'', 4)]
       = map_of [(''a'', 1), (''b'', 2)] ++ map_of [(''c'', 4), (''b'', 3)]
   \<and> merge (Py_sequence []) (Py_None :: (string, int) variants_arg) = None"
  using merge_right_biased
          [of "Py_sequence [(''a'', 1::int), (''b'', 2)]" "Py_iterator [(''c'', 4), (''b'', 3)]"]
        merge_right_biased [of "Py_sequence []" "Py_None :: (string, int) variants_arg"]
  by (simp add: merge_def dict_def)

subsection \<open>Target.walk_targets\<close>

text \<open>
  The walk is a total function (its recursion was shown to terminate above) and, for
  every store and every root, it yields each target at most once; but the targets it
  yields are the root and the targets among the dependencies of the root's own
  configurations, whatever the rest of the graph looks like.
\<close>

lemma walk_ok_skip: "must \<subseteq> visited \<Longrightarrow> walk_ok visited must may (visited, [])"
  by (simp add: walk_ok_def)

lemma walk_ok_seq:
  assumes "walk_ok visited must1 may1 (v1, ys1)"
    and "walk_ok v1 must2 may2 (v2, ys2)"
    and "may1 \<union> may2 \<subseteq> may" and "must \<subseteq> must1 \<union> must2"
  shows "walk_ok visited must may (v2, ys1 @ ys2)"
proof -
  from assms(1) have a: "v1 = visited \<union> set ys1" "distinct ys1" "set ys1 \<inter> visited = {}"
    "set ys1 \<subseteq> may1" "must1 \<subseteq> v1"
    by (auto simp: walk_ok_def)
  from assms(2) have b: "v2 = v1 \<union> set ys2" "distinct ys2" "set ys2 \<inter> v1 = {}"
    "set ys2 \<subseteq> may2" "must2 \<subseteq> v2"
    by (auto simp: walk_ok_def)
  have 1: "v2 = visited \<union> set (ys1 @ ys2)" using a(1) b(1) by auto
  have 2: "distinct (ys1 @ ys2)" using a(1,2) b(2,3) by auto
  have 3: "set (ys1 @ ys2) \<inter> visited = {}" using a(1,3) b(3) by auto
  have 4: "set (ys1 @ ys2) \<subseteq> may" using a(4) b(4) assms(3) by auto
  have 5: "must \<subseteq> v2" using a(5) b(1,5) assms(4) by auto
  from 1 2 3 4 5 show ?thesis by (simp add: walk_ok_def)
qed

lemma walk_ok_yield:
  assumes "walk_ok (insert t visited) D D (v, ys)" and "t \<notin> visited"
  shows "walk_ok visited (insert t D) (insert t D)
           (v, (if \<not> postorder then [t] else []) @ ys @ (if postorder then [t] else []))"
proof -
  from assms(1) have a: "v = insert t visited \<union> set ys" "distinct ys"
    "set ys \<inter> insert t visited = {}" "set ys \<subseteq> D" "D \<subseteq> v"
    by (auto simp: walk_ok_def)
  have 1: "v = visited \<union> insert t (set ys)" using a(1) by auto
  have 2: "t \<notin> set ys" using a(3) by auto
  have 3: "set ys \<inter> visited = {}" using a(3) by auto
  have 4: "insert t D \<subseteq> v" using a(1,5) by auto
  have 5: "set ys \<subseteq> insert t D" using a(4) by auto
  from 1 2 3 4 5 a(2) assms(2) show ?thesis by (simp add: walk_ok_def)
qed

lemma walk_invariant:
  "walk_ok visited
     (if t \<in> visited then {t} else insert t (direct_targets h self))
     (insert t (direct_targets h self))
     (walk h self postorder t visited)"
  "walk_ok visited
     (set (configuration_targets cs))
     (direct_targets h self \<union> set (configuration_targets cs))
     (walk_configurations h self postorder cs visited)"
  "walk_ok visited
     (set (target_deps ds))
     (direct_targets h self \<union> set (target_deps ds))
     (walk_dependencies h self postorder ds visited)"
proof (induct h self postorder t visited and h self postorder cs visited
         and h self postorder ds visited
       rule: walk_walk_configurations_walk_dependencies.induct)
  case (1 h self postorder t visited)
  show ?case
  proof (cases "t \<in> visited")
    case True
    then show ?thesis by (simp add: walk.simps walk_ok_skip)
  next
    case False
    obtain v ys where r:
      "walk_configurations h self postorder (configurations (h self)) (insert t visited) = (v, ys)"
      by (cases "walk_configurations h self postorder (configurations (h self)) (insert t visited)")
    from 1 [OF False] r
    have "walk_ok (insert t visited) (direct_targets h self) (direct_targets h self) (v, ys)"
      by (simp add: direct_targets_def)
    from walk_ok_yield [OF this False, of postorder] False r show ?thesis
      by (simp add: walk.simps)
  qed
next
  case (2 h self postorder visited)
  show ?case by (simp add: walk_ok_skip configuration_targets_def)
next
  case (3 h self postorder c cs visited)
  obtain v1 ys1 where r1: "walk_dependencies h self postorder (dependencies c) visited = (v1, ys1)"
    by (cases "walk_dependencies h self postorder (dependencies c) visited")
  obtain v2 ys2 where r2: "walk_configurations h self postorder cs v1 = (v2, ys2)"
    by (cases "walk_configurations h self postorder cs v1")
  from 3(1) r1 have a: "walk_ok visited (set (target_deps (dependencies c)))
       (direct_targets h self \<union> set (target_deps (dependencies c))) (v1, ys1)"
    by simp
  from 3(2) [OF r1 [symmetric]] r2 have b: "walk_ok v1 (set (configuration_targets cs))
       (direct_targets h self \<union> set (configuration_targets cs)) (v2, ys2)"
    by simp
  have "walk_ok visited (set (configuration_targets (c # cs)))
          (direct_targets h self \<union> set (configuration_targets (c # cs))) (v2, ys1 @ ys2)"
    by (rule walk_ok_seq [OF a b]) (auto simp: configuration_targets_def)
  then show ?case by (simp add: r1 r2)
next
  case (4 h self postorder visited)
  show ?case by (simp add: walk_ok_skip)
next
  case (5 h self postorder d ds visited)
  show ?case
  proof (cases d)
    case (Target_dep u)
    obtain v1 ys1 where r1: "walk h self postorder u visited = (v1, ys1)"
      by (cases "walk h self postorder u visited")
    obtain v2 ys2 where r2: "walk_dependencies h self postorder ds v1 = (v2, ys2)"
      by (cases "walk_dependencies h self postorder ds v1")
    from 5(1) [OF Target_dep] r1 have a: "walk_ok visited
         (if u \<in> visited then {u} else insert u (direct_targets h self))
         (insert u (direct_targets h self)) (v1, ys1)"
      by simp
    from 5(2) [of v1 ys1] r1 r2 Target_dep
    have b: "walk_ok v1 (set (target_deps ds))
         (direct_targets h self \<union> set (target_deps ds)) (v2, ys2)"
      by simp
    have "walk_ok visited (set (target_deps (d # ds)))
            (direct_targets h self \<union> set (target_deps (d # ds))) (v2, ys1 @ ys2)"
      by (rule walk_ok_seq [OF a b]) (auto simp: Target_dep)
    then show ?thesis by (simp add: Target_dep r1 r2)
  next
    case (Other_dep x)
    obtain v2 ys2 where r2: "walk_dependencies h self postorder ds visited = (v2, ys2)"
      by (cases "walk_dependencies h self postorder ds visited")
    from 5(2) [of visited "[]"] Other_dep r2 show ?thesis
      by simp
  qed
qed

lemma walk_targets_direct_only:
  "set (walk_targets h self postorder) = insert self (direct_targets h self)
   \<and> distinct (walk_targets h self postorder)"
  using walk_invariant(1) [of "{}" self h self postorder]
  by (auto simp: walk_targets_def walk_ok_def)

text \<open>
  C1 fails on the code. On the cycle A \<open>\<rightarrow>\<close> B \<open>\<rightarrow>\<close> C \<open>\<rightarrow>\<close> A (targets 0, 1 and 2) the walk from A
  yields B and A only, in postorder as in preorder: C is reachable from A and is never
  yielded, because the inner \<open>walk\<close> loops over the configurations of the root
  (\<open>self.configurations\<close>) instead of those of the target it is visiting.
\<close>

theorem walk_targets_cycle_misses_target:
  "walk_targets cycle 0 True = [1, 0]
   \<and> walk_targets cycle 0 False = [0, 1]
   \<and> (0, 2) \<in> rtrancl (dependency_edges cycle)
   \<and> 2 \<notin> set (walk_targets cycle 0 True)"
proof -
  have "(0, 1) \<in> dependency_edges cycle" and "(1, 2) \<in> dependency_edges cycle"
    by (simp_all add: dependency_edges_def cycle_def depends_on_def configuration_targets_def)
  then have r: "(0, 2) \<in> rtrancl (dependency_edges cycle)"
    by (meson converse_rtrancl_into_rtrancl r_into_rtrancl)
  have post: "walk_targets cycle 0 True = [1, 0]"
    by (simp add: walk_targets_def walk.simps cycle_def depends_on_def)
  have pre: "walk_targets cycle 0 False = [0, 1]"
    by (simp add: walk_targets_def walk.simps cycle_def depends_on_def)
  from r post pre show ?thesis by simp
qed

subsection \<open>Target\<close>

text \<open>
  C4. \<open>select_configuration\<close> returns a configuration exactly when it is the only one of
  the target whose name equals the argument; with no match or with several it raises
  \<open>ConfigurationNotFound\<close> (carrying the matches) and picks none of them.
\<close>

theorem select_configuration_exactly_one:
  "(\<forall>c. filter (\<lambda>config. name config = nm) (configurations self) = [c]
        \<longrightarrow> select_configuration self nm = Inr c)
   \<and> (length (filter (\<lambda>config. name config = nm) (configurations self)) \<noteq> 1
        \<longrightarrow> select_configuration self nm
            = Inl (ConfigurationNotFound nm
                     (filter (\<lambda>config. name config = nm) (configurations self))))
   \<and> (\<forall>c. select_configuration self nm = Inr c
        \<longrightarrow> filter (\<lambda>config. name config = nm) (configurations self) = [c])"
  by (auto simp add: select_configuration_def Let_def length_Suc_conv)

theorem select_configuration_exactly_one_witness:
  "select_configuration \<lparr>target_name = Some ''lib'', configurations = [jvm_config, doc_config]\<rparr>
     (Some ''default'') = Inr jvm_config
   \<and> select_configuration \<lparr>target_name = Some ''lib'', configurations = [jvm_config, py_config]\<rparr>
       (Some ''default'') = Inl (ConfigurationNotFound (Some ''default'') [jvm_config, py_config])
   \<and> select_configuration \<lparr>target_name = Some ''lib'', configurations = [doc_config]\<rparr>
       (Some ''default'') = Inl (ConfigurationNotFound (Some ''default'') [])"
  using select_configuration_exactly_one
          [of "Some ''default''"
              "\<lparr>target_name = Some ''lib'', configurations = [jvm_config, doc_config]\<rparr>"]
        select_configuration_exactly_one
          [of "Some ''default''"
              "\<lparr>target_name = Some ''lib'', configurations = [jvm_config, py_config]\<rparr>"]
        select_configuration_exactly_one
          [of "Some ''default''"
              "\<lparr>target_name = Some ''lib'', configurations = [doc_config]\<rparr>"]
  by (simp add: jvm_config_def py_config_def doc_config_def)

subsection \<open>Sources\<close>

lemma splitext_a_txt: "splitext ''a.txt'' = (''a'', ''.txt'')"
  by code_simp

lemma splitext_a_py: "splitext ''a.py'' = (''a'', ''.py'')"
  by code_simp

lemma splitext_b_py: "splitext ''b.py'' = (''b'', ''.py'')"
  by code_simp

lemma splitext_x_py: "splitext ''x.py'' = (''x'', ''.py'')"
  by code_simp
lemma splitext_y_py: "splitext ''y.py'' = (''y'', ''.py'')"
  by code_simp

text \<open>
  C8. When \<open>files\<close> and the declared extensions are both non-empty, construction succeeds
  exactly when every listed file has one of the extensions; otherwise it raises the
  \<open>ValueError\<close> that names a listed file whose extension is not accepted.
\<close>

theorem Sources_init_checks_files:
  assumes "elems fls \<noteq> []" and "exts \<noteq> []"
  shows "((\<exists>self. Sources_init exts nm fls gl rgl zgl excl = Inr self)
            \<longleftrightarrow> (\<forall>f \<in> set (elems fls). accept_file exts f))
         \<and> ((\<exists>f \<in> set (elems fls). \<not> accept_file exts f)
            \<longrightarrow> (\<exists>f \<in> set (elems fls). \<not> accept_file exts f
                   \<and> Sources_init exts nm fls gl rgl zgl excl
                       = Inl (ValueError_not_a_file f exts)))"
proof (cases "find (\<lambda>f. \<not> accept_file exts f) (elems fls)")
  case None
  then have "\<forall>f \<in> set (elems fls). accept_file exts f"
    by (simp add: find_None_iff)
  with None assms show ?thesis
    by (simp add: Sources_init_def)
next
  case (Some f)
  then have "f \<in> set (elems fls)" and "\<not> accept_file exts f"
    by (auto simp: find_Some_iff)
  with Some assms show ?thesis
    by (auto simp: Sources_init_def)
qed

theorem Sources_init_checks_files_witness:
  "elems (Some [''a.txt'']) \<noteq> [] \<and> [''.py''] \<noteq> []
   \<and> Sources_init [''.py''] None (Some [''a.txt'']) None None None None
       = Inl (ValueError_not_a_file ''a.txt'' [''.py''])
   \<and> Sources_init [''.py''] None (Some [''a.py'', ''b.py'']) None None None None
       = Inr (Sources None None (Some [''a.py'', ''b.py'']) None None None None [''.py''])"
  using Sources_init_checks_files [of "Some [''a.txt'']" "[''.py'']" None None None None None]
        Sources_init_checks_files [of "Some [''a.py'', ''b.py'']" "[''.py'']" None None None None None]
  by (simp add: accept_file_def splitext_a_txt splitext_a_py splitext_b_py Sources_init_def)

text \<open>
  C2 fails on the code. A \<open>Sources\<close> with no declared extensions is constructed without
  complaint from \<open>files = ["a.py"]\<close>, since the constructor skips its check when the
  extensions are empty; but \<open>iter_paths\<close> asks \<open>_accept_file\<close> for every candidate, and
  no extension is a member of the empty collection: nothing is yielded.
\<close>

theorem iter_paths_empty_extensions_yields_nothing:
  "Sources_init [] None (Some [''a.py'']) None None None None = Inr any_sources
   \<and> extensions any_sources = []
   \<and> iter_paths no_files any_sources (Some ''src'') = Inr []"
  by (simp add: Sources_init_def any_sources_def iter_paths.simps file_sources_def
        accept_file_def)

lemma empty_extensions_reject_all:
  assumes "extensions self = []"
  shows "iter_paths fs self base_path = Inr ps \<Longrightarrow> ps = []"
  using assms
  by (subst (asm) iter_paths.simps)
     (auto simp: accept_file_def Let_def split: sum.splits if_splits prod.splits option.splits)

text \<open>
  C10. For a \<open>Sources\<close> with an address, \<open>iter_paths\<close> works from \<open>spec_path\<close> of the address
  and from nothing else. It raises the \<open>ValueError\<close> about the base path when that
  \<open>spec_path\<close> is empty. Otherwise the excluded paths are those of \<open>excludes\<close> for the base
  path \<open>spec_path\<close>, and the paths yielded are the accepted candidates enumerated for
  the base path \<open>spec_path\<close>, each joined to \<open>spec_path\<close>, less the excluded ones. So the
  result is the same for every \<open>base_path\<close> argument, present or not, and it is the
  result that the same value without an address gives for the base path \<open>spec_path\<close>.
\<close>

theorem iter_paths_addressed_ignores_base_path:
  assumes "address self = Some a"
  shows "iter_paths fs self base_path = iter_paths fs self base_path'
         \<and> iter_paths fs self base_path
             = iter_paths fs
                 (Sources (sources_name self) None (files self) (globs self) (rglobs self)
                    (zglobs self) (excludes self) (extensions self))
                 (Some (spec_path a))
         \<and> (spec_path a = [] \<longrightarrow> iter_paths fs self base_path = Inl ValueError_base_path)
         \<and> (spec_path a \<noteq> [] \<longrightarrow>
               iter_paths fs self base_path
                 = (case (case excludes self of
                            Some e \<Rightarrow> iter_paths fs e (Some (spec_path a))
                          | None \<Rightarrow> Inr [])
                    of
                      Inl err \<Rightarrow> Inl err
                    | Inr excluded_files \<Rightarrow>
                        Inr (map (os_path_join (spec_path a))
                               (filter (\<lambda>rel_path.
                                          accept_file (extensions self) rel_path
                                          \<and> os_path_join (spec_path a) rel_path
                                              \<notin> set excluded_files)
                                  (concat (file_sources fs self (spec_path a)))))))
         \<and> (\<forall>ps. iter_paths fs self base_path = Inr ps \<longrightarrow>
               (\<forall>p \<in> set ps.
                  \<exists>rel_path \<in> set (concat (file_sources fs self (spec_path a))).
                    accept_file (extensions self) rel_path
                    \<and> p = os_path_join (spec_path a) rel_path))"
proof -
  have unaddressed: "iter_paths fs self b
          = iter_paths fs
              (Sources (sources_name self) None (files self) (globs self) (rglobs self)
                 (zglobs self) (excludes self) (extensions self))
              (Some (spec_path a))" for b
  proof (cases self)
    case (Sources nm ad fls gl rgl zgl excl exts)
    with assms show ?thesis
      by (simp add: iter_paths.simps [of fs "Sources nm (Some a) fls gl rgl zgl excl exts"]
            iter_paths.simps [of fs "Sources nm None fls gl rgl zgl excl exts"]
            file_sources_def Let_def cong: sum.case_cong)
  qed
  have empty: "iter_paths fs self base_path = Inl ValueError_base_path" if "spec_path a = []"
    using assms that by (simp add: iter_paths.simps [of fs self])
  have unfolded: "iter_paths fs self base_path
      = (case (case excludes self of
                 Some e \<Rightarrow> iter_paths fs e (Some (spec_path a))
               | None \<Rightarrow> Inr [])
         of
           Inl err \<Rightarrow> Inl err
         | Inr excluded_files \<Rightarrow>
             Inr (map (os_path_join (spec_path a))
                    (filter (\<lambda>rel_path.
                               accept_file (extensions self) rel_path
                               \<and> os_path_join (spec_path a) rel_path \<notin> set excluded_files)
                       (concat (file_sources fs self (spec_path a))))))"
    if "spec_path a \<noteq> []"
    using assms that
    by (simp add: iter_paths.simps [of fs self] Let_def cong: sum.case_cong)
  have joined: "\<exists>rel_path \<in> set (concat (file_sources fs self (spec_path a))).
                  accept_file (extensions self) rel_path
                  \<and> p = os_path_join (spec_path a) rel_path"
    if ps: "iter_paths fs self base_path = Inr ps" and p: "p \<in> set ps" for ps p
  proof -
    from ps empty have ne: "spec_path a \<noteq> []" by auto
    from unfolded [OF ne] ps obtain excluded_files where
      "ps = map (os_path_join (spec_path a))
              (filter (\<lambda>rel_path.
                         accept_file (extensions self) rel_path
                         \<and> os_path_join (spec_path a) rel_path \<notin> set excluded_files)
                 (concat (file_sources fs self (spec_path a))))"
      by (auto split: sum.splits)
    with p show ?thesis by auto
  qed
  from unaddressed empty unfolded joined show ?thesis
    by (intro conjI impI allI ballI) auto
qed

theorem iter_paths_addressed_ignores_base_path_witness:
  "address py_sources = Some (Address ''src/python'' ''lib'')
   \<and> iter_paths no_files py_sources (Some ''elsewhere'') = Inr [''src/python/y.py'']
   \<and> iter_paths no_files py_sources None = Inr [''src/python/y.py'']"
  using iter_paths_addressed_ignores_base_path
          [of py_sources "Address ''src/python'' ''lib''" no_files "Some ''elsewhere''" None]
  by (simp add: py_sources_def iter_paths.simps file_sources_def accept_file_def
        splitext_x_py splitext_y_py os_path_join_def startswith_def endswith_def)

subsection \<open>GoalRunner\<close>

lemma endswith_build_out [simp]: "\<not> endswith ''/tmp/build-out'' ''.pants.d''"
  by (simp add: endswith_def)

lemma endswith_pants_d [simp]: "endswith ''/repo/.pants.d'' ''.pants.d''"
  by (simp add: endswith_def)

text \<open>
  C6. Whenever the configured working directory does not end in \<open>.pants.d\<close>, the
  engine-execution step returns result code 1 at once, having only logged the error
  about the working directory: the task engine's \<open>execute\<close> is not among the calls made.
\<close>

theorem execute_engine_bad_workdir:
  assumes "\<not> endswith (pants_workdir (runner_context self)) ''.pants.d''"
  shows "execute_engine engine self
           = ([Log_error_workdir (pants_workdir (runner_context self))], Inr 1)
         \<and> Engine_execute \<notin> set (fst (execute_engine engine self))"
  using assms by (simp add: execute_engine_def)

theorem execute_engine_bad_workdir_witness:
  "\<not> endswith (pants_workdir (runner_context (mk_runner ''/tmp/build-out'' [compile_goal] True True)))
       ''.pants.d''
   \<and> execute_engine (engine_returning 0) (mk_runner ''/tmp/build-out'' [compile_goal] True True)
       = ([Log_error_workdir ''/tmp/build-out''], Inr 1)
   \<and> Engine_execute \<notin> set (fst (execute_engine (engine_returning 0)
                                  (mk_runner ''/tmp/build-out'' [compile_goal] True True)))"
  using execute_engine_bad_workdir
          [of "mk_runner ''/tmp/build-out'' [compile_goal] True True" "engine_returning 0"]
  by (simp add: mk_runner_def)

text \<open>
  C5. When the task engine raises \<open>KeyboardInterrupt\<close>, the run records the failed outcome,
  then kills the nailguns for either value of the configured \<open>kill_nailguns\<close> flag, and
  ends by raising \<open>KeyboardInterrupt\<close> to its caller: the events are exactly the engine
  call, the outcome and the kill, in this order.
\<close>

theorem run_keyboard_interrupt:
  assumes "endswith (pants_workdir (runner_context self)) ''.pants.d''"
    and "unknown_goal_names self = []"
    and "engine (runner_context self) (goals self) = Inl KeyboardInterrupt"
  shows "run engine self
           = ([Engine_execute, Set_root_outcome_FAILURE, Nailgun_killall],
              Inl KeyboardInterrupt)"
  using assms by (simp add: run_def execute_engine_def unknown_goal_names_def)

theorem run_keyboard_interrupt_witness:
  "endswith (pants_workdir (runner_context (mk_runner ''/repo/.pants.d'' [compile_goal] True False)))
     ''.pants.d''
   \<and> unknown_goal_names (mk_runner ''/repo/.pants.d'' [compile_goal] True False) = []
   \<and> engine_raising KeyboardInterrupt
        (runner_context (mk_runner ''/repo/.pants.d'' [compile_goal] True False))
        (goals (mk_runner ''/repo/.pants.d'' [compile_goal] True False)) = Inl KeyboardInterrupt
   \<and> \<not> kill_nailguns (mk_runner ''/repo/.pants.d'' [compile_goal] True False)
   \<and> run (engine_raising KeyboardInterrupt) (mk_runner ''/repo/.pants.d'' [compile_goal] True False)
       = ([Engine_execute, Set_root_outcome_FAILURE, Nailgun_killall], Inl KeyboardInterrupt)"
  using run_keyboard_interrupt
          [of "mk_runner ''/repo/.pants.d'' [compile_goal] True False"
              "engine_raising KeyboardInterrupt"]
  by (simp add: mk_runner_def unknown_goal_names_def compile_goal_def engine_raising_def)

text \<open>
  C7 as stated fails when the working directory is wrong as well: that check comes first,
  and the error logged is the one about the directory, not the list of unknown goals.
\<close>

theorem unknown_goals_counterexample:
  "unknown_goal_names (mk_runner ''/tmp/build-out'' [compile_goal, bogus_goal] False False)
     = [''bogus'']
   \<and> execute_engine (engine_returning 0)
        (mk_runner ''/tmp/build-out'' [compile_goal, bogus_goal] False False)
       = ([Log_error_workdir ''/tmp/build-out''], Inr 1)
   \<and> Log_error_unknown_goals ''bogus''
       \<notin> set (fst (execute_engine (engine_returning 0)
                     (mk_runner ''/tmp/build-out'' [compile_goal, bogus_goal] False False)))"
  by (simp add: execute_engine_def mk_runner_def unknown_goal_names_def compile_goal_def
        bogus_goal_def)

text \<open>
  C7, amended. Whenever the working directory ends in \<open>.pants.d\<close> and at least one
  requested goal has no ordered task names, the engine-execution step returns result
  code 1 having only logged the names of the goals without ordered task names (all of them,
  joined by spaces): the task engine's \<open>execute\<close> is not among the calls made.
\<close>

theorem execute_engine_unknown_goals:
  assumes "endswith (pants_workdir (runner_context self)) ''.pants.d''"
    and "unknown_goal_names self \<noteq> []"
  shows "execute_engine engine self
           = ([Log_error_unknown_goals (join '' '' (unknown_goal_names self))], Inr 1)
         \<and> set (unknown_goal_names self)
             = goal_name ` {g \<in> set (goals self). ordered_task_names g = []}
         \<and> Engine_execute \<notin> set (fst (execute_engine engine self))"
  using assms by (auto simp add: execute_engine_def unknown_goal_names_def Let_def)

theorem execute_engine_unknown_goals_witness:
  "endswith (pants_workdir (runner_context
       (mk_runner ''/repo/.pants.d'' [typo_goal, compile_goal, bogus_goal] True True))) ''.pants.d''
   \<and> unknown_goal_names (mk_runner ''/repo/.pants.d'' [typo_goal, compile_goal, bogus_goal] True True)
       \<noteq> []
   \<and> execute_engine (engine_returning 0)
        (mk_runner ''/repo/.pants.d'' [typo_goal, compile_goal, bogus_goal] True True)
       = ([Log_error_unknown_goals ''complie bogus''], Inr 1)"
  using execute_engine_unknown_goals
          [of "mk_runner ''/repo/.pants.d'' [typo_goal, compile_goal, bogus_goal] True True"
              "engine_returning 0"]
  by (simp add: mk_runner_def unknown_goal_names_def compile_goal_def bogus_goal_def
        typo_goal_def)

text \<open>
  C9 as stated fails on a run whose engine returns a nonzero result code: the run is
  recorded as failed, and the invalidation report has been emitted all the same.
\<close>

theorem invalidation_report_counterexample:
  "run (engine_returning 1) (mk_runner ''/repo/.pants.d'' [compile_goal] True False)
     = ([Engine_execute, Invalidation_report_report, Set_root_outcome_FAILURE], Inr 1)"
  by (simp add: run_def execute_engine_def mk_runner_def compile_goal_def engine_returning_def)

text \<open>
  C9, amended. The invalidation report is emitted exactly when one was produced during
  setup, both precondition checks pass and the engine returns a result code, zero or not;
  it is then emitted right after the engine call. It is not emitted when a precondition
  fails or when the engine raises.
\<close>

theorem invalidation_report_emitted_iff_engine_returns:
  "(Invalidation_report_report \<in> set (fst (run engine self))
      \<longleftrightarrow> invalidation_report self
          \<and> endswith (pants_workdir (runner_context self)) ''.pants.d''
          \<and> unknown_goal_names self = []
          \<and> (\<exists>result. engine (runner_context self) (goals self) = Inr result))
   \<and> (Invalidation_report_report \<in> set (fst (run engine self))
      \<longrightarrow> take 2 (fst (run engine self)) = [Engine_execute, Invalidation_report_report])"
  by (auto simp add: run_def execute_engine_def unknown_goal_names_def Let_def
        split: sum.splits exn.splits if_splits)

theorem invalidation_report_emitted_iff_engine_returns_witness:
  "Invalidation_report_report
     \<in> set (fst (run (engine_returning 0) (mk_runner ''/repo/.pants.d'' [compile_goal] True False)))
   \<and> take 2 (fst (run (engine_returning 0) (mk_runner ''/repo/.pants.d'' [compile_goal] True False)))
       = [Engine_execute, Invalidation_report_report]
   \<and> Invalidation_report_report
     \<notin> set (fst (run (engine_raising (Exception ''boom''))
                   (mk_runner ''/repo/.pants.d'' [compile_goal] True False)))"
  using invalidation_report_emitted_iff_engine_returns
          [of "engine_returning 0" "mk_runner ''/repo/.pants.d'' [compile_goal] True False"]
        invalidation_report_emitted_iff_engine_returns
          [of "engine_raising (Exception ''boom'')"
              "mk_runner ''/repo/.pants.d'' [compile_goal] True False"]
  by (simp add: mk_runner_def unknown_goal_names_def compile_goal_def engine_returning_def
        engine_raising_def)

end
